theory Spec2Isabelle
  imports Complex_Main "HOL-Library.Word" "HOL-Library.Multiset"
begin

unbundle bit_operations_syntax

section \<open>Data model\<close>

text \<open>
  The generator of \<^verbatim>\<open>src/generators/LotteryGenerator.ts\<close> works on \<^verbatim>\<open>Uint32Array\<close>s of
  16 elements and reads its seed from a \<^verbatim>\<open>Uint8Array\<close>. A typed array is modelled as a list
  of machine words: every store into a \<^verbatim>\<open>Uint32Array\<close> reduces modulo \<open>2^32\<close>, which is what
  arithmetic on \<open>32 word\<close> does. All indices used by the source on these arrays are
  constants below 16, so no read or write is ever out of range.
\<close>

type_synonym u8 = "8 word"
type_synonym u32 = "32 word"

section \<open>The block function\<close>

text \<open>
  \<^verbatim>\<open>quarterRound(a, b, c, d, state)\<close> mutates four cells of \<^verbatim>\<open>state\<close> in place, one
  statement after the other. \<^verbatim>\<open>(x << n) | (x >>> (32 - n))\<close> followed by \<^verbatim>\<open>>>> 0\<close> is kept as
  the source writes it: a left shift, a logical right shift and a bitwise or.
\<close>

definition quarterRound :: "nat \<Rightarrow> nat \<Rightarrow> nat \<Rightarrow> nat \<Rightarrow> u32 list \<Rightarrow> u32 list" where
  "quarterRound a b c d state0 =
    (let s1 = state0[a := state0 ! a + state0 ! b];
         s2 = s1[d := s1 ! d XOR s1 ! a];
         s3 = s2[d := push_bit 16 (s2 ! d) OR drop_bit 16 (s2 ! d)];
         s4 = s3[c := s3 ! c + s3 ! d];
         s5 = s4[b := s4 ! b XOR s4 ! c];
         s6 = s5[b := push_bit 12 (s5 ! b) OR drop_bit 20 (s5 ! b)];
         s7 = s6[a := s6 ! a + s6 ! b];
         s8 = s7[d := s7 ! d XOR s7 ! a];
         s9 = s8[d := push_bit 8 (s8 ! d) OR drop_bit 24 (s8 ! d)];
         s10 = s9[c := s9 ! c + s9 ! d];
         s11 = s10[b := s10 ! b XOR s10 ! c];
         s12 = s11[b := push_bit 7 (s11 ! b) OR drop_bit 25 (s11 ! b)]
     in s12)"

text \<open>The body of the loop \<^verbatim>\<open>for (let i = 0; i < 10; i++)\<close> of \<^verbatim>\<open>chachaBlock\<close>.\<close>

definition round_body :: "u32 list \<Rightarrow> u32 list" where
  "round_body working =
    (let w1 = quarterRound 0 4 8 12 working;
         w2 = quarterRound 1 5 9 13 w1;
         w3 = quarterRound 2 6 10 14 w2;
         w4 = quarterRound 3 7 11 15 w3;
         w5 = quarterRound 0 5 10 15 w4;
         w6 = quarterRound 1 6 11 12 w5;
         w7 = quarterRound 2 7 8 13 w6;
         w8 = quarterRound 3 4 9 14 w7
     in w8)"

text \<open>
  The loop itself; the first argument is the number of iterations still to run
  (\<^verbatim>\<open>10 - i\<close>), the body does not read \<^verbatim>\<open>i\<close>.
\<close>

fun rounds_loop :: "nat \<Rightarrow> u32 list \<Rightarrow> u32 list" where
  "rounds_loop 0 working = working"
| "rounds_loop (Suc n) working = rounds_loop n (round_body working)"

text \<open>
  \<^verbatim>\<open>chachaBlock(input, output)\<close>: \<^verbatim>\<open>new Uint32Array(input)\<close> copies the input, the rounds run
  on the copy, and the last loop stores \<^verbatim>\<open>working[i] + input[i]\<close> into \<^verbatim>\<open>output[i]\<close> for
  \<^verbatim>\<open>i = 0 .. 15\<close>. The function returns nothing; the model returns the new contents of
  \<^verbatim>\<open>output\<close>. \<^verbatim>\<open>input\<close> is only read.
\<close>

definition chachaBlock :: "u32 list \<Rightarrow> u32 list \<Rightarrow> u32 list" where
  "chachaBlock input output =
    (let working = rounds_loop 10 input
     in foldl (\<lambda>out i. out[i := working ! i + input ! i]) output [0..<16])"

section \<open>The generator\<close>

text \<open>
  \<^verbatim>\<open>createCSPRNG(seed)\<close> returns a closure over three variables: \<^verbatim>\<open>state\<close>,
  \<^verbatim>\<open>bufferIndex\<close> and \<^verbatim>\<open>buffer\<close>. The closure's variables are the fields of a record; a
  call of the closure takes the record and returns the drawn value with the updated record.
\<close>

record csprng =
  state :: "u32 list"
  bufferIndex :: nat
  buffer :: "u32 list"

text \<open>
  \<^verbatim>\<open>seed[k]\<close> on a \<^verbatim>\<open>Uint8Array\<close>: a byte, or \<^verbatim>\<open>undefined\<close> past the end, which the
  operators \<^verbatim>\<open>|\<close> and \<^verbatim>\<open><<\<close> read as 0.
\<close>

definition seed_byte :: "u8 list \<Rightarrow> nat \<Rightarrow> u32" where
  "seed_byte seed k = (if k < length seed then ucast (seed ! k) else 0)"

text \<open>The loop \<^verbatim>\<open>for (let i = 0; i < 8 && i * 4 < seed.length; i++)\<close>.\<close>

function seed_loop :: "nat \<Rightarrow> u8 list \<Rightarrow> u32 list \<Rightarrow> u32 list" where
  "seed_loop i seed st =
    (if i < 8 \<and> i * 4 < length seed
     then seed_loop (i + 1) seed
            (st[i := seed_byte seed (i * 4) OR
                     push_bit 8 (seed_byte seed (i * 4 + 1)) OR
                     push_bit 16 (seed_byte seed (i * 4 + 2)) OR
                     push_bit 24 (seed_byte seed (i * 4 + 3))])
     else st)"
  by pat_completeness auto
termination
  by (relation "measure (\<lambda>(i, seed, st). 8 - i)") auto

definition createCSPRNG :: "u8 list \<Rightarrow> csprng" where
  "createCSPRNG seed =
    (let st0 = replicate 16 0;
         st1 = seed_loop 0 seed st0;
         st2 = st1[8 := 0x61707865];
         st3 = st2[9 := 0x3320646e];
         st4 = st3[10 := 0x79622d32];
         st5 = st4[11 := 0x6b206574];
         st6 = st5[12 := 0];
         st7 = st6[13 := 0];
         st8 = st7[14 := 0];
         st9 = st8[15 := 0]
     in \<lparr>state = st9, bufferIndex = 16, buffer = replicate 16 0\<rparr>)"

text \<open>
  The refill branch of the closure: a new block is written into \<^verbatim>\<open>buffer\<close>, then the
  counter in \<^verbatim>\<open>state[12]\<close> and \<^verbatim>\<open>state[13]\<close> advances and the cursor returns to 0.
\<close>

definition refill :: "csprng \<Rightarrow> csprng" where
  "refill g =
    (let buf = chachaBlock (state g) (buffer g);
         st1 = (state g)[12 := state g ! 12 + 1];
         st2 = (if st1 ! 12 = 0 then st1[13 := st1 ! 13 + 1] else st1)
     in \<lparr>state = st2, bufferIndex = 0, buffer = buf\<rparr>)"

text \<open>
  One call \<^verbatim>\<open>rng()\<close> of the closure. The drawn word is below \<open>2^32\<close>, so
  \<^verbatim>\<open>value / 0x100000000\<close> is exact in double precision; the model returns it as a rational.
\<close>

definition rng :: "csprng \<Rightarrow> rat \<times> csprng" where
  "rng g =
    (let g1 = (if bufferIndex g \<ge> 16 then refill g else g);
         v = buffer g1 ! bufferIndex g1
     in (of_int (uint v) / 4294967296, g1\<lparr>bufferIndex := bufferIndex g1 + 1\<rparr>))"

section \<open>Hex decoding and seed derivation\<close>

text \<open>
  The source throws \<^verbatim>\<open>Error\<close> objects that differ in their message only; each message is a
  constructor. \<open>RangeTooSmall count min max\<close> stands for
  \<^verbatim>\<open>Cannot generate ${count} unique numbers from range ${min}-${max}\<close>, \<open>OddLength\<close> for
  \<^verbatim>\<open>Invalid hex string: odd length\<close> and \<open>InvalidHexChar\<close> for
  \<^verbatim>\<open>Invalid hex character in beacon value\<close>. \<open>CryptoError\<close> is a rejection that
  comes from the platform's \<^verbatim>\<open>crypto.subtle\<close>.
\<close>

datatype error = RangeTooSmall int int int | OddLength | InvalidHexChar | CryptoError

text \<open>
  A JavaScript string is a sequence of UTF-16 code units. The model is \<open>string\<close>, whose
  characters are the code units 0 to 255. Among these the white space class of a regular
  expression holds tab, line feed, vertical tab, form feed, carriage return, space and the
  no-break space.
\<close>

definition is_whitespace :: "char \<Rightarrow> bool" where
  "is_whitespace c \<longleftrightarrow>
     (of_char c :: nat) \<in> {0x09, 0x0A, 0x0B, 0x0C, 0x0D, 0x20, 0xA0}"

definition hex_value :: "char \<Rightarrow> nat option" where
  "hex_value c =
    (let n = (of_char c :: nat)
     in if 48 \<le> n \<and> n \<le> 57 then Some (n - 48)
        else if 97 \<le> n \<and> n \<le> 102 then Some (n - 87)
        else if 65 \<le> n \<and> n \<le> 70 then Some (n - 55)
        else None)"

text \<open>
  \<^verbatim>\<open>parseInt(str, 16)\<close> as ECMAScript defines it: leading white space is dropped, one sign
  is read, a prefix \<^verbatim>\<open>0x\<close> or \<^verbatim>\<open>0X\<close> is dropped, and the longest prefix of hexadecimal
  digits of what remains is the number; the result is \<^verbatim>\<open>NaN\<close> (here \<open>None\<close>) only when that
  prefix is empty. Characters after the digits are ignored.
\<close>

definition parseInt16 :: "string \<Rightarrow> int option" where
  "parseInt16 str =
    (let s = dropWhile is_whitespace str;
         sign = (if s \<noteq> [] \<and> hd s = CHR ''-'' then - 1 else 1 :: int);
         s1 = (if s \<noteq> [] \<and> (hd s = CHR ''+'' \<or> hd s = CHR ''-'') then tl s else s);
         s2 = (if take 2 s1 = ''0x'' \<or> take 2 s1 = ''0X'' then drop 2 s1 else s1);
         z = takeWhile (\<lambda>c. hex_value c \<noteq> None) s2
     in if z = [] then None
        else Some (sign * int (foldl (\<lambda>acc c. 16 * acc + the (hex_value c)) 0 z)))"

text \<open>
  The loop \<^verbatim>\<open>for (let i = 0; i < cleanHex.length; i += 2)\<close> of \<^verbatim>\<open>hexToBytes\<close>;
  \<^verbatim>\<open>cleanHex.substr(i, 2)\<close> is \<open>take 2 (drop i cleanHex)\<close>, and a store into the
  \<^verbatim>\<open>Uint8Array\<close> reduces the number modulo 256.
\<close>

function decode_loop :: "nat \<Rightarrow> string \<Rightarrow> u8 list \<Rightarrow> error + u8 list" where
  "decode_loop i cleanHex bytes =
    (if i < length cleanHex
     then (case parseInt16 (take 2 (drop i cleanHex)) of
             None \<Rightarrow> Inl InvalidHexChar
           | Some byte \<Rightarrow> decode_loop (i + 2) cleanHex (bytes[i div 2 := of_int byte]))
     else Inr bytes)"
  by pat_completeness auto
termination
  by (relation "measure (\<lambda>(i, cleanHex, bytes). length cleanHex - i)") auto

definition hexToBytes :: "string \<Rightarrow> error + u8 list" where
  "hexToBytes hex =
    (let cleanHex = filter (\<lambda>c. \<not> is_whitespace c) hex
     in if length cleanHex mod 2 \<noteq> 0 then Inl OddLength
        else decode_loop 0 cleanHex (replicate (length cleanHex div 2) 0))"

text \<open>
  \<^verbatim>\<open>new TextEncoder().encode(purpose)\<close>: the UTF-8 bytes of the string, one byte for a code
  unit below 128 and two bytes for the others the model has.
\<close>

definition utf8_encode :: "string \<Rightarrow> u8 list" where
  "utf8_encode str =
    concat (map (\<lambda>c. if (of_char c :: nat) < 128 then [of_char c]
                        else [0xC0 OR drop_bit 6 (of_char c), 0x80 OR (of_char c AND 0x3F)]) str)"

text \<open>
  \<^verbatim>\<open>deriveSeed(beacon, purpose)\<close>. HMAC-SHA256 is computed by the platform
  (\<^verbatim>\<open>crypto.subtle.importKey\<close> and \<^verbatim>\<open>crypto.subtle.sign\<close>) and is a parameter of the
  model: a function of the key bytes and the message bytes that gives the signature, or
  \<open>None\<close> where the platform rejects. The promise the source returns is the sum type:
  rejected with an error or fulfilled with the seed.
\<close>

type_synonym mac = "u8 list \<Rightarrow> u8 list \<Rightarrow> u8 list option"

definition deriveSeed :: "mac \<Rightarrow> string \<Rightarrow> string \<Rightarrow> error + u8 list" where
  "deriveSeed hmac beacon purpose =
    (case hexToBytes beacon of
       Inl e \<Rightarrow> Inl e
     | Inr beaconBytes \<Rightarrow>
         (case hmac beaconBytes (utf8_encode purpose) of
            None \<Rightarrow> Inl CryptoError
          | Some signature \<Rightarrow> Inr signature))"

section \<open>The sampler\<close>

text \<open>
  \<^verbatim>\<open>count\<close>, \<^verbatim>\<open>min\<close> and \<^verbatim>\<open>max\<close> are JavaScript numbers; the model covers the
  integers and calls them \<open>cnt\<close>, \<open>mn\<close> and \<open>mx\<close>, the source's names being constants
  of the library. \<^verbatim>\<open>Array.from({ length: n }, (_, i) => i + min)\<close> has no element when \<open>n\<close> is
  zero or negative. The lists of the model have no bound on their length.
\<close>

definition make_pool :: "int \<Rightarrow> int \<Rightarrow> int list" where
  "make_pool mn mx = map (\<lambda>i. int i + mn) [0..<nat (mx - mn + 1)]"

text \<open>
  The loop \<^verbatim>\<open>for (let i = pool.length - 1; i > 0; i--)\<close>. The first argument is \<open>i\<close>; the
  loop ends when it is 0, and it does not run at all on an empty pool, where the source
  starts from \<open>-1\<close>. \<^verbatim>\<open>[pool[i], pool[j]] = [pool[j], pool[i]]\<close> reads both cells and
  then writes \<^verbatim>\<open>pool[i]\<close> and \<^verbatim>\<open>pool[j]\<close> in this order.
  \<^verbatim>\<open>Math.floor(rng() * (i + 1))\<close> is computed on the rationals; double precision gives the
  same number as long as the product of the drawn word and \<open>i + 1\<close> is below \<open>2^53\<close>, which
  holds for every pool of at most \<open>2^21\<close> elements.
\<close>

fun shuffle_loop :: "nat \<Rightarrow> int list \<Rightarrow> csprng \<Rightarrow> int list \<times> csprng" where
  "shuffle_loop 0 pool g = (pool, g)"
| "shuffle_loop (Suc k) pool g =
    (case rng g of
       (r, g') \<Rightarrow>
         let i = Suc k;
             j = nat \<lfloor>r * of_nat (i + 1)\<rfloor>
         in shuffle_loop k (pool[i := pool ! j, j := pool ! i]) g')"

text \<open>
  \<^verbatim>\<open>pool.slice(0, count)\<close>: a negative \<^verbatim>\<open>count\<close> counts from the end of the array, and the
  end is clamped to the array.
\<close>

definition slice0 :: "'a list \<Rightarrow> int \<Rightarrow> 'a list" where
  "slice0 xs e = take (if e < 0 then nat (int (length xs) + e) else nat e) xs"

text \<open>
  The part of \<^verbatim>\<open>generateUniqueNumbers\<close> after the guard and up to the end of the shuffle:
  the shuffled pool together with the generator as the shuffle leaves it.
\<close>

definition shuffled_pool :: "u8 list \<Rightarrow> int \<Rightarrow> int \<Rightarrow> int list \<times> csprng" where
  "shuffled_pool seed mn mx =
    (let g = createCSPRNG seed;
         pool = make_pool mn mx
     in shuffle_loop (length pool - 1) pool g)"

text \<open>
  \<^verbatim>\<open>generateUniqueNumbers(seedPromise, count, min, max)\<close>. The guard comes before
  \<^verbatim>\<open>await seedPromise\<close>, so it wins over a rejected seed promise.
  \<^verbatim>\<open>sort((a, b) => a - b)\<close> sorts numbers in ascending order.
\<close>

definition generateUniqueNumbers :: "error + u8 list \<Rightarrow> int \<Rightarrow> int \<Rightarrow> int \<Rightarrow> error + int list" where
  "generateUniqueNumbers seedPromise cnt mn mx =
    (if cnt > mx - mn + 1 then Inl (RangeTooSmall cnt mn mx)
     else (case seedPromise of
             Inl e \<Rightarrow> Inl e
           | Inr seed \<Rightarrow> Inr (sort (slice0 (fst (shuffled_pool seed mn mx)) cnt))))"

text \<open>
  The two public generators. Both are \<^verbatim>\<open>async\<close> and return the promise of
  \<^verbatim>\<open>generateUniqueNumbers\<close> without awaiting it, so a rejection of that promise does not
  pass through their \<^verbatim>\<open>catch\<close> block.
\<close>

definition generate649Numbers :: "mac \<Rightarrow> string \<Rightarrow> error + int list" where
  "generate649Numbers hmac seed = generateUniqueNumbers (deriveSeed hmac seed ''649'') 6 1 49"

definition generateLottoMaxNumbers :: "mac \<Rightarrow> string \<Rightarrow> error + int list" where
  "generateLottoMaxNumbers hmac seed = generateUniqueNumbers (deriveSeed hmac seed ''max'') 7 1 50"

section \<open>The validator\<close>

text \<open>
  \<^verbatim>\<open>validateNumbers\<close> tests \<^verbatim>\<open>Number.isInteger(num)\<close>, so its numbers need not be integers:
  they are rationals here (every finite double is one; \<^verbatim>\<open>NaN\<close> and the infinities, which
  the source rejects as not integer, are not in the model). \<^verbatim>\<open>new Set(numbers)\<close> keeps the
  first occurrence of every value, in insertion order; its \<^verbatim>\<open>size\<close> is the length of that
  list.
\<close>

definition new_Set :: "rat list \<Rightarrow> rat list" where
  "new_Set numbers = foldl (\<lambda>s x. if x \<in> set s then s else s @ [x]) [] numbers"

definition isInteger :: "rat \<Rightarrow> bool" where
  "isInteger num \<longleftrightarrow> of_int \<lfloor>num\<rfloor> = num"

text \<open>The loop \<^verbatim>\<open>for (const num of numbers)\<close> with its early \<^verbatim>\<open>return false\<close>.\<close>

fun range_loop :: "rat list \<Rightarrow> rat \<Rightarrow> rat \<Rightarrow> bool" where
  "range_loop [] mn mx = True"
| "range_loop (num # rest) mn mx =
    (if num < mn \<or> num > mx \<or> \<not> isInteger num then False else range_loop rest mn mx)"

definition validateNumbers :: "rat list \<Rightarrow> rat \<Rightarrow> rat \<Rightarrow> rat \<Rightarrow> bool" where
  "validateNumbers numbers expectedCount mn mx =
    (if of_nat (length numbers) \<noteq> expectedCount then False
     else if of_nat (length (new_Set numbers)) \<noteq> expectedCount then False
     else range_loop numbers mn mx)"

section \<open>The block function as the specification words it\<close>

text \<open>
  The specification describes a quarter-round on four words \<open>(a, b, c, d)\<close>, with
  additions modulo \<open>2^32\<close> and left rotations by 16, 12, 8 and 7 bits.
\<close>

definition quarter_spec :: "u32 \<times> u32 \<times> u32 \<times> u32 \<Rightarrow> u32 \<times> u32 \<times> u32 \<times> u32" where
  "quarter_spec = (\<lambda>(a, b, c, d).
     let a = a + b; d = d XOR a; d = word_rotl 16 d;
         c = c + d; b = b XOR c; b = word_rotl 12 b;
         a = a + b; d = d XOR a; d = word_rotl 8 d;
         c = c + d; b = b XOR c; b = word_rotl 7 b
     in (a, b, c, d))"

text \<open>A quarter-round over a word group: the four words are read, transformed, written back.\<close>

definition quarter_on :: "nat \<times> nat \<times> nat \<times> nat \<Rightarrow> u32 list \<Rightarrow> u32 list" where
  "quarter_on = (\<lambda>(i, j, k, l) w.
     case quarter_spec (w ! i, w ! j, w ! k, w ! l) of
       (a, b, c, d) \<Rightarrow> w[i := a, j := b, k := c, l := d])"

definition column_pass :: "u32 list \<Rightarrow> u32 list" where
  "column_pass w =
     fold quarter_on [(0, 4, 8, 12), (1, 5, 9, 13), (2, 6, 10, 14), (3, 7, 11, 15)] w"

definition diagonal_pass :: "u32 list \<Rightarrow> u32 list" where
  "diagonal_pass w =
     fold quarter_on [(0, 5, 10, 15), (1, 6, 11, 12), (2, 7, 8, 13), (3, 4, 9, 14)] w"

definition double_round :: "u32 list \<Rightarrow> u32 list" where
  "double_round w = diagonal_pass (column_pass w)"

text \<open>Ten double rounds on a copy of the state, then the original state added word by word.\<close>

definition block_spec :: "u32 list \<Rightarrow> u32 list" where
  "block_spec s = map2 (+) ((double_round ^^ 10) s) s"

text \<open>
  A list with four cells overwritten; the normal form of the array while a
  quarter-round runs.
\<close>

definition set4 :: "u32 list \<Rightarrow> nat \<Rightarrow> nat \<Rightarrow> nat \<Rightarrow> nat \<Rightarrow> u32 \<Rightarrow> u32 \<Rightarrow> u32 \<Rightarrow> u32 \<Rightarrow> u32 list" where
  "set4 w a b c d A B C D = w[a := A, b := B, c := C, d := D]"

section \<open>Little-endian words as the specification words them\<close>

text \<open>
  Four bytes read as a little-endian 32-bit word: the first byte is the least significant.
\<close>

definition le_word :: "u8 \<Rightarrow> u8 \<Rightarrow> u8 \<Rightarrow> u8 \<Rightarrow> u32" where
  "le_word b0 b1 b2 b3 =
     of_nat (unat b0 + 2 ^ 8 * unat b1 + 2 ^ 16 * unat b2 + 2 ^ 24 * unat b3)"

text \<open>Word \<open>i\<close> of a seed, four bytes per word.\<close>

definition seed_word :: "u8 list \<Rightarrow> nat \<Rightarrow> u32" where
  "seed_word seed i =
     le_word (seed ! (4 * i)) (seed ! (4 * i + 1)) (seed ! (4 * i + 2)) (seed ! (4 * i + 3))"

text \<open>A seed of 32 zero bytes, for the examples.\<close>

definition zero_seed :: "u8 list" where
  "zero_seed = replicate 32 0"

text \<open>
  A function in the place of HMAC-SHA256 for the examples: the theorems hold for every
  function in that place.
\<close>

definition concat_mac :: mac where
  "concat_mac key msg = Some (key @ msg)"

section \<open>Hex decoding as the specification words it\<close>

text \<open>The string with its white space removed, as \<^verbatim>\<open>hexToBytes\<close> computes it first.\<close>

abbreviation strip :: "string \<Rightarrow> string" where
  "strip hex \<equiv> filter (\<lambda>c. \<not> is_whitespace c) hex"

text \<open>
  The bytes of a string of hexadecimal digits: every pair of digits is one byte, the first
  digit being the high half.
\<close>

fun hex_bytes :: "string \<Rightarrow> u8 list" where
  "hex_bytes (c1 # c2 # rest) =
     of_nat (16 * the (hex_value c1) + the (hex_value c2)) # hex_bytes rest"
| "hex_bytes cs = []"

text \<open>
  The decoding loop of the source read as a recursion over the pairs of characters; the
  lemma \<open>decode_loop_pairs\<close> below shows that the loop computes it.
\<close>

fun decode_pairs :: "string \<Rightarrow> error + u8 list" where
  "decode_pairs (c1 # c2 # rest) =
    (case parseInt16 [c1, c2] of
       None \<Rightarrow> Inl InvalidHexChar
     | Some byte \<Rightarrow> map_sum id ((#) (of_int byte)) (decode_pairs rest))"
| "decode_pairs cs = Inr []"

section \<open>The sampler as the specification words it\<close>

text \<open>One draw taken from a generator and thrown away: the generator after the draw.\<close>

definition advance :: "csprng \<Rightarrow> csprng" where
  "advance g = snd (rng g)"

text \<open>The first \<open>n\<close> values a generator yields, in order.\<close>

fun draws :: "csprng \<Rightarrow> nat \<Rightarrow> rat list" where
  "draws g 0 = []"
| "draws g (Suc n) = fst (rng g) # draws (snd (rng g)) n"

definition swap :: "int list \<Rightarrow> nat \<Rightarrow> nat \<Rightarrow> int list" where
  "swap pool i j = pool[i := pool ! j, j := pool ! i]"

text \<open>
  The full Fisher-Yates shuffle over a list of draws: for \<open>i\<close> from the last index down to
  1, the next draw \<open>r\<close> gives \<open>j = \<lfloor>r * (i + 1)\<rfloor>\<close> and the cells \<open>i\<close> and \<open>j\<close> are swapped.
\<close>

definition fisher_yates :: "rat list \<Rightarrow> int list \<Rightarrow> int list" where
  "fisher_yates rs pool =
     foldl (\<lambda>p (i, r). swap p i (nat \<lfloor>r * of_nat (i + 1)\<rfloor>)) pool
       (zip (rev [1..<length pool]) rs)"

text \<open>
  The sampler: the pool \<open>[min, ..., max]\<close> is shuffled with the first \<open>max - min\<close> draws of
  the generator of the seed, and the first \<open>count\<close> elements are sorted in ascending order.
\<close>

definition sample_spec :: "u8 list \<Rightarrow> int \<Rightarrow> int \<Rightarrow> int \<Rightarrow> int list" where
  "sample_spec seed cnt mn mx =
     sort (take (nat cnt)
       (fisher_yates (draws (createCSPRNG seed) (nat (mx - mn))) (make_pool mn mx)))"

section \<open>Proofs about the block function\<close>

lemma rotl_shift:
  fixes x :: u32
  assumes "0 < n" "n < 32"
  shows "push_bit n x OR drop_bit (32 - n) x = word_rotl n x"
proof (rule bit_word_eqI)
  fix k :: nat
  assume "k < LENGTH(32)"
  then have k: "k < 32" by simp
  show "bit (push_bit n x OR drop_bit (32 - n) x) k = bit (word_rotl n x) k"
  proof (cases "n \<le> k")
    case True
    with k assms have "(k + (32 - n)) mod 32 = k - n" "\<not> 32 - n + k < 32"
      by (simp_all add: mod_if)
    with True k assms show ?thesis
      by (auto simp: bit_simps dest: bit_imp_le_length)
  next
    case False
    with k assms have lt: "k + (32 - n) < 32"
      by arith
    then have "(k + (32 - n)) mod 32 = k + (32 - n)"
      by (rule mod_less)
    moreover have "k + (32 - n) = 32 - n + k"
      by arith
    ultimately have "(k + (32 - n)) mod 32 = 32 - n + k" "32 - n + k < 32"
      using lt by simp_all
    with False k assms show ?thesis
      by (auto simp: bit_simps dest: bit_imp_le_length)
  qed
qed

lemmas rotl_consts =
  rotl_shift[of 16, simplified] rotl_shift[of 12, simplified]
  rotl_shift[of 8, simplified] rotl_shift[of 7, simplified]

lemma set4_read:
  assumes "a < length w" "b < length w" "c < length w" "d < length w"
    and "distinct [a, b, c, d]"
  shows "set4 w a b c d A B C D ! a = A" "set4 w a b c d A B C D ! b = B"
    "set4 w a b c d A B C D ! c = C" "set4 w a b c d A B C D ! d = D"
  using assms by (simp_all add: set4_def)

lemma set4_write:
  assumes "distinct [a, b, c, d]"
  shows "(set4 w a b c d A B C D)[a := A'] = set4 w a b c d A' B C D"
    "(set4 w a b c d A B C D)[b := B'] = set4 w a b c d A B' C D"
    "(set4 w a b c d A B C D)[c := C'] = set4 w a b c d A B C' D"
    "(set4 w a b c d A B C D)[d := D'] = set4 w a b c d A B C D'"
  using assms by (simp_all add: set4_def list_update_swap)

lemma set4_id: "set4 w a b c d (w ! a) (w ! b) (w ! c) (w ! d) = w"
  by (simp add: set4_def)

lemma quarterRound_set4:
  assumes "a < length w" "b < length w" "c < length w" "d < length w"
    and "distinct [a, b, c, d]"
  shows "quarterRound a b c d (set4 w a b c d A B C D) =
    (case quarter_spec (A, B, C, D) of (A', B', C', D') \<Rightarrow> set4 w a b c d A' B' C' D')"
  by (simp add: quarterRound_def quarter_spec_def Let_def
      set4_read[OF assms] set4_write[OF assms(5)] rotl_consts)

lemma quarterRound_spec:
  assumes "a < length w" "b < length w" "c < length w" "d < length w"
    and "distinct [a, b, c, d]"
  shows "quarterRound a b c d w = quarter_on (a, b, c, d) w"
  using quarterRound_set4[OF assms, of "w ! a" "w ! b" "w ! c" "w ! d"]
  by (simp add: set4_id quarter_on_def set4_def split: prod.splits)

text \<open>
  The quarter-round of the source on the test vector of RFC 7539, section 2.1.1.
\<close>

lemma quarterRound_rfc7539:
  "quarterRound 0 1 2 3 [0x11111111, 0x01020304, 0x9b8d6f43, 0x01234567] =
     [0xea2a92f4, 0xcb1cf8ce, 0x4581472e, 0x5881c4bb]"
  by code_simp

lemma let_length:
  assumes "length e = n" and "\<And>s. length s = n \<Longrightarrow> length (f s) = n"
  shows "length (Let e f) = n"
  using assms by simp

lemma length_quarterRound [simp]: "length (quarterRound a b c d w) = length w"
  unfolding quarterRound_def by (intro let_length) simp_all

lemma length_round_body [simp]: "length (round_body w) = length w"
  by (simp add: round_body_def Let_def)

lemma length_rounds_loop [simp]: "length (rounds_loop n w) = length w"
  by (induction n arbitrary: w) simp_all

lemma round_body_spec:
  assumes "length w = 16"
  shows "round_body w = double_round w"
  using assms
  by (simp add: round_body_def double_round_def column_pass_def diagonal_pass_def Let_def
      quarterRound_spec [symmetric])

lemma rounds_loop_spec:
  assumes "length w = 16"
  shows "rounds_loop n w = (double_round ^^ n) w"
  using assms
proof (induction n arbitrary: w)
  case 0
  show ?case by simp
next
  case (Suc n)
  then show ?case
    by (simp add: round_body_spec [symmetric] funpow_swap1)
qed

lemma store_loop:
  assumes "k \<le> length out"
  shows "foldl (\<lambda>out i. out[i := f i]) out [0..<k] = map f [0..<k] @ drop k out"
  using assms
proof (induction k)
  case 0
  show ?case by simp
next
  case (Suc k)
  then have "k < length out" by simp
  then have "(map f [0..<k] @ drop k out)[k := f k] = map f [0..<k] @ f k # drop (Suc k) out"
    by (simp add: list_update_append upd_conv_take_nth_drop)
  with Suc show ?case by simp
qed

lemma length_chachaBlock [simp]:
  "length output = 16 \<Longrightarrow> length (chachaBlock input output) = 16"
  using store_loop [of 16 "output"] by (simp add: chachaBlock_def Let_def)

lemma chachaBlock_block_spec:
  assumes "length input = 16" and "length output = 16"
  shows "chachaBlock input output = block_spec input"
proof -
  have "chachaBlock input output = map (\<lambda>i. rounds_loop 10 input ! i + input ! i) [0..<16]"
    using store_loop [of 16 "output" "\<lambda>i. rounds_loop 10 input ! i + input ! i"] assms
    by (simp add: chachaBlock_def Let_def)
  also have "\<dots> = map2 (+) (rounds_loop 10 input) input"
    using assms by (intro nth_equalityI) simp_all
  finally show ?thesis
    using assms by (simp add: block_spec_def rounds_loop_spec)
qed

text \<open>
  Claim C1. For every 16-word state (and 16-word output buffer), the block function of
  the source computes what the specification describes: the state is copied, ten double
  rounds run on the copy, each a column pass over the word groups (0,4,8,12), (1,5,9,13),
  (2,6,10,14), (3,7,11,15) followed by a diagonal pass over (0,5,10,15), (1,6,11,12),
  (2,7,8,13), (3,4,9,14), every quarter-round being the sequence of additions modulo
  \<open>2^32\<close>, exclusive ors and left rotations by 16, 12, 8, 7, and the original state is
  added word by word to give the output block.
\<close>

theorem chachaBlock_spec:
  assumes "length input = 16" and "length output = 16"
  shows "chachaBlock input output = block_spec input"
  using assms by (rule chachaBlock_block_spec)

theorem chachaBlock_spec_witness:
  "length (replicate 16 (1 :: u32)) = 16 \<and> length (replicate 16 (0 :: u32)) = 16 \<and>
   chachaBlock (replicate 16 1) (replicate 16 0) = block_spec (replicate 16 1)"
  using chachaBlock_spec [of "replicate 16 1" "replicate 16 0"] by simp

section \<open>Proofs about the generator\<close>

lemma or_bytes_le_word:
  fixes b0 b1 b2 b3 :: u8
  shows "(ucast b0 :: u32) OR push_bit 8 (ucast b1) OR push_bit 16 (ucast b2) OR
         push_bit 24 (ucast b3) = le_word b0 b1 b2 b3"
proof -
  let ?x3 = "push_bit 24 (ucast b3) :: u32"
  let ?x2 = "push_bit 16 (ucast b2) :: u32"
  let ?x1 = "push_bit 8 (ucast b1) :: u32"
  let ?x0 = "ucast b0 :: u32"
  have d23: "?x2 AND ?x3 = 0"
    by (rule bit_word_eqI) (auto simp: bit_simps dest: bit_imp_le_length)
  have d1: "?x1 AND (?x2 OR ?x3) = 0"
    by (rule bit_word_eqI) (auto simp: bit_simps dest: bit_imp_le_length)
  have d0: "?x0 AND (?x1 OR (?x2 OR ?x3)) = 0"
    by (rule bit_word_eqI) (auto simp: bit_simps dest: bit_imp_le_length)
  have "?x0 OR ?x1 OR ?x2 OR ?x3 = ?x0 + (?x1 + (?x2 + ?x3))"
    using d23 d1 d0 by (simp add: disjunctive_add_eq_or)
  moreover have "?x0 + (?x1 + (?x2 + ?x3)) = le_word b0 b1 b2 b3"
    by (simp add: le_word_def push_bit_eq_mult)
  ultimately show ?thesis by (rule trans)
qed


lemma seed_loop_eq:
  assumes "length seed = 32" and "length st = 16" and "i \<le> 8"
  shows "seed_loop i seed st = take i st @ map (seed_word seed) [i..<8] @ drop 8 st"
  using assms(2,3)
proof (induction "8 - i" arbitrary: i st)
  case 0
  then have "i = 8" by simp
  then show ?case
    by (subst seed_loop.simps) simp
next
  case (Suc n)
  then have i: "i < 8" by simp
  let ?w = "seed_byte seed (i * 4) OR push_bit 8 (seed_byte seed (i * 4 + 1)) OR
            push_bit 16 (seed_byte seed (i * 4 + 2)) OR push_bit 24 (seed_byte seed (i * 4 + 3))"
  from i assms(1) have w: "?w = seed_word seed i"
    by (simp add: seed_byte_def seed_word_def or_bytes_le_word mult.commute)
  from i assms(1) have "seed_loop i seed st = seed_loop (i + 1) seed (st[i := ?w])"
    by (subst seed_loop.simps) simp
  also have "\<dots> = take (i + 1) (st[i := ?w]) @ map (seed_word seed) [i + 1..<8] @
      drop 8 (st[i := ?w])"
    using Suc.hyps(1) [of "i + 1" "st[i := ?w]"] Suc.hyps(2) Suc.prems i by simp
  also have "\<dots> = take i st @ map (seed_word seed) [i..<8] @ drop 8 st"
    using i Suc.prems w by (simp add: take_Suc_conv_app_nth upt_conv_Cons)
  finally show ?case .
qed

lemma length_seed_loop [simp]: "length (seed_loop i seed st) = length st"
proof (induction i seed st rule: seed_loop.induct)
  case (1 i seed st)
  then show ?case
    by (subst seed_loop.simps) simp
qed

lemma length_state_createCSPRNG [simp]: "length (state (createCSPRNG seed)) = 16"
  by (simp add: createCSPRNG_def Let_def)

text \<open>
  Claim C4. A generator constructed from a 32-byte seed has state words 0 to 7 equal to the
  little-endian words of the seed (four bytes per word), words 8 to 11 equal to the
  constants 0x61707865, 0x3320646e, 0x79622d32, 0x6b206574, and words 12 to 15 equal to
  zero; its cursor is 16, past the end of the buffer, so the first draw refills the buffer
  with a new block before it reads position 0.
\<close>

theorem createCSPRNG_init:
  assumes "length seed = 32"
  shows "state (createCSPRNG seed) =
           map (seed_word seed) [0..<8] @
           [0x61707865, 0x3320646e, 0x79622d32, 0x6b206574] @ [0, 0, 0, 0] \<and>
         bufferIndex (createCSPRNG seed) = 16 \<and>
         snd (rng (createCSPRNG seed)) = (refill (createCSPRNG seed))\<lparr>bufferIndex := 1\<rparr>"
proof -
  have "seed_loop 0 seed (replicate 16 0) = map (seed_word seed) [0..<8] @ replicate 8 0"
    using seed_loop_eq [OF assms, of "replicate 16 0" 0] by simp
  then have st: "state (createCSPRNG seed) =
           map (seed_word seed) [0..<8] @
           [0x61707865, 0x3320646e, 0x79622d32, 0x6b206574] @ [0, 0, 0, 0]"
    by (simp add: createCSPRNG_def Let_def list_update_append numeral_eq_Suc)
  have idx: "bufferIndex (createCSPRNG seed) = 16"
    by (simp add: createCSPRNG_def Let_def)
  have "snd (rng (createCSPRNG seed)) = (refill (createCSPRNG seed))\<lparr>bufferIndex := 1\<rparr>"
    using idx by (simp add: rng_def Let_def refill_def)
  with st idx show ?thesis by simp
qed

theorem createCSPRNG_init_witness:
  "length zero_seed = 32 \<and>
   state (createCSPRNG zero_seed) =
     map (seed_word zero_seed) [0..<8] @
     [0x61707865, 0x3320646e, 0x79622d32, 0x6b206574] @ [0, 0, 0, 0] \<and>
   bufferIndex (createCSPRNG zero_seed) = 16 \<and>
   snd (rng (createCSPRNG zero_seed)) = (refill (createCSPRNG zero_seed))\<lparr>bufferIndex := 1\<rparr>"
  using createCSPRNG_init [of zero_seed] by (simp add: zero_seed_def)

lemma wrap_iff:
  fixes x :: u32
  shows "x + 1 = 0 \<longleftrightarrow> unat x = 2 ^ 32 - 1"
proof -
  have "x + 1 = 0 \<longleftrightarrow> unat (x + 1) = 0"
    by (simp add: unat_eq_0)
  also have "unat (x + 1) = (unat x + 1) mod 2 ^ 32"
    by (simp add: unat_word_ariths)
  also have "(unat x + 1) mod 2 ^ 32 = 0 \<longleftrightarrow> unat x = 2 ^ 32 - 1"
  proof -
    have "unat x < 2 ^ 32"
      using unsigned_less [of x] by simp
    then show ?thesis
      by (auto simp: mod_if)
  qed
  finally show ?thesis .
qed

lemma state_refill:
  assumes "length (state g) = 16"
  shows "state (refill g) =
    (state g)[12 := state g ! 12 + 1,
              13 := (if state g ! 12 + 1 = 0 then state g ! 13 + 1 else state g ! 13)]"
proof (rule nth_equalityI)
  show "length (state (refill g)) = length ((state g)[12 := state g ! 12 + 1,
              13 := (if state g ! 12 + 1 = 0 then state g ! 13 + 1 else state g ! 13)])"
    by (simp add: refill_def Let_def)
next
  fix i
  assume "i < length (state (refill g))"
  with assms show "state (refill g) ! i = (state g)[12 := state g ! 12 + 1,
              13 := (if state g ! 12 + 1 = 0 then state g ! 13 + 1 else state g ! 13)] ! i"
    by (simp add: refill_def Let_def nth_list_update)
qed

text \<open>
  Claim C5. A draw that produces a new block (the cursor is at 16 or beyond) adds 1 modulo
  \<open>2^32\<close> to state word 12, adds 1 modulo \<open>2^32\<close> to state word 13 exactly when word 12
  has wrapped to zero, and leaves every other state word as it was; a draw that does not
  produce a block leaves the whole state as it was.
\<close>

theorem counter_advance:
  assumes "length (state g) = 16"
  shows "(bufferIndex g \<ge> 16 \<longrightarrow>
            unat (state (snd (rng g)) ! 12) = (unat (state g ! 12) + 1) mod 2 ^ 32 \<and>
            unat (state (snd (rng g)) ! 13) =
              (if unat (state g ! 12) = 2 ^ 32 - 1 then (unat (state g ! 13) + 1) mod 2 ^ 32
               else unat (state g ! 13)) \<and>
            (\<forall>i < 16. i \<noteq> 12 \<longrightarrow> i \<noteq> 13 \<longrightarrow> state (snd (rng g)) ! i = state g ! i) \<and>
            length (state (snd (rng g))) = 16) \<and>
         (bufferIndex g < 16 \<longrightarrow> state (snd (rng g)) = state g)"
proof -
  have "state (snd (rng g)) = (if bufferIndex g \<ge> 16 then state (refill g) else state g)"
    by (simp add: rng_def Let_def)
  with assms show ?thesis
    by (simp add: state_refill wrap_iff unat_word_ariths)
qed

theorem counter_advance_witness:
  "length (state \<lparr>state = replicate 12 0 @ [0xFFFFFFFF, 5, 0, 0], bufferIndex = 16,
      buffer = replicate 16 0\<rparr>) = 16 \<and>
   unat (state (snd (rng \<lparr>state = replicate 12 0 @ [0xFFFFFFFF, 5, 0, 0], bufferIndex = 16,
      buffer = replicate 16 0\<rparr>)) ! 12) = 0 \<and>
   unat (state (snd (rng \<lparr>state = replicate 12 0 @ [0xFFFFFFFF, 5, 0, 0], bufferIndex = 16,
      buffer = replicate 16 0\<rparr>)) ! 13) = 6 \<and>
   state (snd (rng \<lparr>state = replicate 12 0 @ [0xFFFFFFFF, 5, 0, 0], bufferIndex = 3,
      buffer = replicate 16 0\<rparr>)) = replicate 12 0 @ [0xFFFFFFFF, 5, 0, 0]"
  using
    counter_advance [of "\<lparr>state = replicate 12 0 @ [0xFFFFFFFF, 5, 0, 0], bufferIndex = 16,
      buffer = replicate 16 0\<rparr>"]
    counter_advance [of "\<lparr>state = replicate 12 0 @ [0xFFFFFFFF, 5, 0, 0], bufferIndex = 3,
      buffer = replicate 16 0\<rparr>"]
  by (simp add: nth_append)

section \<open>Proofs about hex decoding\<close>

lemma decode_loop_pairs:
  assumes "even (length cleanHex)" and "even i" and "i \<le> length cleanHex"
    and "length bytes = length cleanHex div 2"
  shows "decode_loop i cleanHex bytes =
    map_sum id (\<lambda>bs. take (i div 2) bytes @ bs) (decode_pairs (drop i cleanHex))"
  using assms(2-4)
proof (induction "length cleanHex - i" arbitrary: i bytes rule: less_induct)
  case less
  show ?case
  proof (cases "i < length cleanHex")
    case False
    with less.prems show ?thesis
      by (subst decode_loop.simps) simp
  next
    case True
    with assms(1) less.prems(1) have i2: "i + 2 \<le> length cleanHex"
      by presburger
    then obtain c1 c2 rest where d: "drop i cleanHex = c1 # c2 # rest"
      by (metis Cons_nth_drop_Suc True Suc_lessI add_2_eq_Suc' le_add_same_cancel1 not_less_eq_eq order.strict_trans1 lessI le_eq_less_or_eq less_add_same_cancel1 zero_less_numeral)
    then have rest: "drop (i + 2) cleanHex = rest"
      by (metis add_2_eq_Suc' drop_Suc drop_drop list.sel(3) tl_drop add.commute)
    from d have t: "take 2 (drop i cleanHex) = [c1, c2]"
      by (simp add: numeral_2_eq_2)
    show ?thesis
    proof (cases "parseInt16 [c1, c2]")
      case None
      with True t d show ?thesis
        by (subst decode_loop.simps) simp
    next
      case (Some byte)
      have "decode_loop i cleanHex bytes =
          decode_loop (i + 2) cleanHex (bytes[i div 2 := of_int byte])"
        using True t Some by (subst decode_loop.simps) simp
      also have "\<dots> = map_sum id (\<lambda>bs. take ((i + 2) div 2) (bytes[i div 2 := of_int byte]) @ bs)
          (decode_pairs rest)"
        using less.hyps [of "i + 2" "bytes[i div 2 := of_int byte]"] True i2 less.prems rest
        by simp
      also have "take ((i + 2) div 2) (bytes[i div 2 := of_int byte]) =
          take (i div 2) bytes @ [of_int byte]"
      proof -
        from True less.prems assms(1) have "i div 2 < length bytes"
          by presburger
        then show ?thesis
          by (simp add: take_Suc_conv_app_nth)
      qed
      finally show ?thesis
        using d Some by (cases "decode_pairs rest") simp_all
    qed
  qed
qed

lemma hexToBytes_pairs:
  "hexToBytes hex =
    (if odd (length (strip hex)) then Inl OddLength else decode_pairs (strip hex))"
proof (cases "odd (length (strip hex))")
  case True
  then show ?thesis
    by (simp add: hexToBytes_def Let_def odd_iff_mod_2_eq_one)
next
  case False
  then have "decode_loop 0 (strip hex) (replicate (length (strip hex) div 2) 0) =
      decode_pairs (strip hex)"
    using decode_loop_pairs [of "strip hex" 0 "replicate (length (strip hex) div 2) 0"]
    by (cases "decode_pairs (strip hex)") simp_all
  with False show ?thesis
    by (simp add: hexToBytes_def Let_def)
qed


lemma hex_value_not_special:
  assumes "hex_value c \<noteq> None"
  shows "\<not> is_whitespace c" "c \<noteq> CHR ''-''" "c \<noteq> CHR ''+''" "c \<noteq> CHR ''x''" "c \<noteq> CHR ''X''"
  using assms by (auto simp: hex_value_def is_whitespace_def Let_def split: if_splits)

lemma parseInt16_hex_pair:
  assumes "hex_value c1 \<noteq> None" and "hex_value c2 \<noteq> None"
  shows "parseInt16 [c1, c2] = Some (int (16 * the (hex_value c1) + the (hex_value c2)))"
  using assms hex_value_not_special [OF assms(1)] hex_value_not_special [OF assms(2)]
  by (simp add: parseInt16_def Let_def)

lemma decode_pairs_hex:
  assumes "\<forall>c \<in> set cs. hex_value c \<noteq> None"
  shows "decode_pairs cs = Inr (hex_bytes cs)"
  using assms
  by (induction cs rule: hex_bytes.induct) (simp_all add: parseInt16_hex_pair)

lemma decode_pairs_error:
  assumes "decode_pairs cs = Inl e"
  shows "e = InvalidHexChar"
  using assms
  by (induction cs arbitrary: e rule: decode_pairs.induct)
    (auto split: option.splits sum.splits simp: map_sum_def)

lemma hexToBytes_error:
  assumes "hexToBytes hex = Inl e"
  shows "e = OddLength \<and> odd (length (strip hex)) \<or>
         e = InvalidHexChar \<and> even (length (strip hex)) \<and>
           (\<exists>c \<in> set (strip hex). hex_value c = None)"
proof (cases "odd (length (strip hex))")
  case True
  with assms show ?thesis by (simp add: hexToBytes_pairs)
next
  case False
  with assms have d: "decode_pairs (strip hex) = Inl e"
    by (simp add: hexToBytes_pairs)
  then have "e = InvalidHexChar"
    by (rule decode_pairs_error)
  moreover have "\<exists>c \<in> set (strip hex). hex_value c = None"
  proof (rule ccontr)
    assume "\<not> (\<exists>c \<in> set (strip hex). hex_value c = None)"
    then have "\<forall>c \<in> set (strip hex). hex_value c \<noteq> None"
      by (simp only: bex_simps de_Morgan_conj not_not) 
    then have "decode_pairs (strip hex) = Inr (hex_bytes (strip hex))"
      by (rule decode_pairs_hex)
    with d show False by simp
  qed
  ultimately show ?thesis using False by simp
qed

text \<open>
  The characters after the first digit of a pair are ignored by \<^verbatim>\<open>parseInt\<close>, and a sign
  is read: these two strings hold a character that is no hexadecimal digit and decode all
  the same, although the source means to reject them
  (\<^verbatim>\<open>Invalid hex character in beacon value\<close>).
\<close>

lemma hexToBytes_trailing_garbage: "hexToBytes ''1g'' = Inr [1]"
  by (simp add: hexToBytes_pairs is_whitespace_def parseInt16_def hex_value_def)

lemma hexToBytes_sign: "hexToBytes ''-f'' = Inr [241]"
  by (simp add: hexToBytes_pairs is_whitespace_def parseInt16_def hex_value_def)

text \<open>
  Claim C7, as the source has it. Seed derivation fails with the odd-length encoding error
  whenever the entropy string, with its white space removed, has odd length. For every
  string that with its white space removed is an even-length string of hexadecimal digits
  the decoding succeeds, the bytes of the digit pairs are the key, and the derivation
  returns what the platform's HMAC returns for that key. When the derivation fails with an
  encoding error, the error is the odd-length error for an odd length, and the
  invalid-character error only for a string that holds a character which is neither white
  space nor a hexadecimal digit; any other failure is a rejection by the platform after a
  successful decoding.
\<close>

theorem deriveSeed_encoding:
  "(odd (length (strip beacon)) \<longrightarrow>
      hexToBytes beacon = Inl OddLength \<and> deriveSeed hmac beacon purpose = Inl OddLength) \<and>
   (even (length (strip beacon)) \<and> (\<forall>c \<in> set (strip beacon). hex_value c \<noteq> None) \<longrightarrow>
      hexToBytes beacon = Inr (hex_bytes (strip beacon)) \<and>
      deriveSeed hmac beacon purpose =
        (case hmac (hex_bytes (strip beacon)) (utf8_encode purpose) of
           None \<Rightarrow> Inl CryptoError
         | Some signature \<Rightarrow> Inr signature)) \<and>
   (\<forall>e. deriveSeed hmac beacon purpose = Inl e \<longrightarrow>
      e = OddLength \<and> odd (length (strip beacon)) \<or>
      e = InvalidHexChar \<and> even (length (strip beacon)) \<and>
        (\<exists>c \<in> set (strip beacon). hex_value c = None) \<or>
      e = CryptoError \<and>
        (\<exists>key. hexToBytes beacon = Inr key \<and> hmac key (utf8_encode purpose) = None))"
proof (intro conjI impI allI)
  assume "odd (length (strip beacon))"
  then show "hexToBytes beacon = Inl OddLength"
    by (simp add: hexToBytes_pairs)
  then show "deriveSeed hmac beacon purpose = Inl OddLength"
    by (simp add: deriveSeed_def)
next
  assume a: "even (length (strip beacon)) \<and> (\<forall>c \<in> set (strip beacon). hex_value c \<noteq> None)"
  then show b: "hexToBytes beacon = Inr (hex_bytes (strip beacon))"
    by (simp add: hexToBytes_pairs decode_pairs_hex)
  then show "deriveSeed hmac beacon purpose =
        (case hmac (hex_bytes (strip beacon)) (utf8_encode purpose) of
           None \<Rightarrow> Inl CryptoError
         | Some signature \<Rightarrow> Inr signature)"
    by (simp add: deriveSeed_def)
next
  fix e
  assume d: "deriveSeed hmac beacon purpose = Inl e"
  show "e = OddLength \<and> odd (length (strip beacon)) \<or>
      e = InvalidHexChar \<and> even (length (strip beacon)) \<and>
        (\<exists>c \<in> set (strip beacon). hex_value c = None) \<or>
      e = CryptoError \<and>
        (\<exists>key. hexToBytes beacon = Inr key \<and> hmac key (utf8_encode purpose) = None)"
  proof (cases "hexToBytes beacon")
    case (Inl e')
    with d have "e' = e"
      by (simp add: deriveSeed_def)
    with Inl hexToBytes_error [of beacon e] show ?thesis
      by simp
  next
    case (Inr key)
    with d have "e = CryptoError" "hmac key (utf8_encode purpose) = None"
      by (simp_all add: deriveSeed_def split: option.splits)
    with Inr show ?thesis
      by simp
  qed
qed

theorem deriveSeed_encoding_witness:
  "odd (length (strip ''ABC'')) \<and>
   deriveSeed concat_mac ''ABC'' ''649'' = Inl OddLength \<and>
   even (length (strip ''00ff'')) \<and>
   map hex_value (strip ''00ff'') = [Some 0, Some 0, Some 15, Some 15] \<and>
   hexToBytes ''00ff'' = Inr [0, 255] \<and>
   deriveSeed concat_mac ''00ff'' ''649'' = Inr [0, 255, 54, 52, 57] \<and>
   deriveSeed concat_mac ''g1'' ''649'' = Inl InvalidHexChar \<and>
   (\<exists>c \<in> set (strip ''g1''). hex_value c = None)"
  using deriveSeed_encoding [of "''ABC''" concat_mac "''649''"]
    deriveSeed_encoding [of "''00ff''" concat_mac "''649''"]
    deriveSeed_encoding [of "''g1''" concat_mac "''649''"]
  by (simp add: is_whitespace_def hex_value_def deriveSeed_def hexToBytes_pairs parseInt16_def
      concat_mac_def utf8_encode_def)

text \<open>
  The claim as it is stated fails: \<open>''0 1''\<close> has odd length and holds a character that is
  no hexadecimal digit, and it decodes to one byte, from which the seed is derived.
\<close>

theorem deriveSeed_encoding_counterexample:
  "odd (length ''0 1'') \<and> hex_value (CHR '' '') = None \<and> CHR '' '' \<in> set ''0 1'' \<and>
   hexToBytes ''0 1'' = Inr [1] \<and>
   deriveSeed concat_mac ''0 1'' ''649'' = Inr [1, 54, 52, 57]"
  by (simp add: hexToBytes_pairs is_whitespace_def parseInt16_def hex_value_def deriveSeed_def
      concat_mac_def utf8_encode_def)

text \<open>
  Claim C10. Decoding a string gives what decoding the string with all white space
  removed gives, and so does seed derivation; in particular a string of hexadecimal digits
  and white space with an even number of digits is accepted, and decodes to the bytes of
  its digit pairs.
\<close>

theorem whitespace_stripped:
  "hexToBytes s = hexToBytes (strip s) \<and>
   deriveSeed hmac s purpose = deriveSeed hmac (strip s) purpose \<and>
   ((\<forall>c \<in> set s. is_whitespace c \<or> hex_value c \<noteq> None) \<and> even (length (strip s)) \<longrightarrow>
      hexToBytes s = Inr (hex_bytes (strip s)))"
proof (intro conjI impI)
  show h: "hexToBytes s = hexToBytes (strip s)"
    by (simp add: hexToBytes_def)
  then show "deriveSeed hmac s purpose = deriveSeed hmac (strip s) purpose"
    by (simp add: deriveSeed_def)
next
  assume a: "(\<forall>c \<in> set s. is_whitespace c \<or> hex_value c \<noteq> None) \<and> even (length (strip s))"
  then have "\<forall>c \<in> set (strip s). hex_value c \<noteq> None"
    by auto
  then have "decode_pairs (strip s) = Inr (hex_bytes (strip s))"
    by (rule decode_pairs_hex)
  with a show "hexToBytes s = Inr (hex_bytes (strip s))"
    by (simp add: hexToBytes_pairs)
qed

theorem whitespace_stripped_witness:
  "strip (''0a 1B\<newline>'' @ [CHR 0x09] @ ''ff'') = ''0a1Bff'' \<and>
   map hex_value ''0a1Bff'' = [Some 0, Some 10, Some 1, Some 11, Some 15, Some 15] \<and>
   even (length (strip (''0a 1B\<newline>'' @ [CHR 0x09] @ ''ff''))) \<and>
   hexToBytes (''0a 1B\<newline>'' @ [CHR 0x09] @ ''ff'') = Inr [10, 27, 255] \<and>
   hexToBytes (''0a 1B\<newline>'' @ [CHR 0x09] @ ''ff'') = hexToBytes ''0a1Bff''"
  using whitespace_stripped [of "''0a 1B\<newline>'' @ [CHR 0x09] @ ''ff''" concat_mac "''649''"]
  by (auto simp: is_whitespace_def hex_value_def)

section \<open>Proofs about the validator\<close>

lemma length_new_Set_aux:
  "distinct s \<Longrightarrow>
   distinct (foldl (\<lambda>s x. if x \<in> set s then s else s @ [x]) s xs) \<and>
   set (foldl (\<lambda>s x. if x \<in> set s then s else s @ [x]) s xs) = set s \<union> set xs"
  by (induction xs arbitrary: s) auto

lemma length_new_Set: "length (new_Set numbers) = card (set numbers)"
proof -
  have "distinct (new_Set numbers)" and "set (new_Set numbers) = set numbers"
    using length_new_Set_aux [of "[]" numbers] by (simp_all add: new_Set_def)
  then show ?thesis
    by (metis distinct_card)
qed

lemma range_loop_iff:
  "range_loop numbers mn mx \<longleftrightarrow> (\<forall>num \<in> set numbers. mn \<le> num \<and> num \<le> mx \<and> num \<in> \<int>)"
proof (induction numbers)
  case Nil
  show ?case by simp
next
  case (Cons num rest)
  have "isInteger num \<longleftrightarrow> num \<in> \<int>"
    unfolding isInteger_def by (metis Ints_of_int floor_of_int Ints_cases)
  with Cons show ?case by auto
qed

text \<open>
  Claim C9. The validator returns true if and only if the length of the sequence equals
  the expected count, its elements are pairwise distinct (the cardinality of their set is
  the length), and every element is an integer between the bounds. The validator is a
  total function to the Booleans: no statement of the source can raise, and none writes
  to the array.
\<close>

theorem validateNumbers_iff:
  "validateNumbers numbers expectedCount mn mx \<longleftrightarrow>
     of_nat (length numbers) = expectedCount \<and>
     card (set numbers) = length numbers \<and> distinct numbers \<and>
     (\<forall>num \<in> set numbers. num \<in> \<int> \<and> mn \<le> num \<and> num \<le> mx)"
  by (auto simp: validateNumbers_def length_new_Set range_loop_iff distinct_card card_distinct)


theorem validateNumbers_iff_witness:
  "validateNumbers [3, 17, 20, 36, 38, 48] 6 1 49 \<and>
   \<not> validateNumbers [3, 17, 20, 36, 38, 50] 6 1 49 \<and>
   \<not> validateNumbers [3, 3, 20, 36, 38, 48] 6 1 49 \<and>
   \<not> validateNumbers [3, 17, 20, 36, 38, 48] 7 1 49"
  using validateNumbers_iff [of "[3, 17, 20, 36, 38, 48]" 6 1 49]
    validateNumbers_iff [of "[3, 17, 20, 36, 38, 50]" 6 1 49]
    validateNumbers_iff [of "[3, 3, 20, 36, 38, 48]" 6 1 49]
    validateNumbers_iff [of "[3, 17, 20, 36, 38, 48]" 7 1 49]
  by simp

section \<open>Proofs about the sampler\<close>

lemma draw_range:
  fixes v :: u32
  shows "0 \<le> (of_int (uint v) / 4294967296 :: rat) \<and> (of_int (uint v) / 4294967296 :: rat) < 1"
proof -
  have "uint v < 4294967296"
    using uint_bounded [of v] by simp
  then have "(of_int (uint v) :: rat) < of_int 4294967296"
    by (simp only: of_int_less_iff)
  moreover have "(0 :: rat) \<le> of_int (uint v)"
    by (simp only: of_int_0_le_iff uint_ge_0)
  ultimately show ?thesis
    by (simp add: divide_less_eq)
qed

lemma rng_range: "0 \<le> fst (rng g) \<and> fst (rng g) < 1"
  unfolding rng_def Let_def fst_conv by (rule draw_range)

lemma draw_index_le:
  fixes r :: rat
  assumes "0 \<le> r" and "r < 1"
  shows "nat \<lfloor>r * of_nat (Suc i)\<rfloor> \<le> i"
proof -
  have pos: "(0 :: rat) < of_nat (Suc i)"
    by (simp only: of_nat_0_less_iff zero_less_Suc)
  have "r * of_nat (Suc i) < 1 * of_nat (Suc i)"
    using assms(2) pos by (rule mult_strict_right_mono)
  then have "r * of_nat (Suc i) < of_int (int (Suc i))"
    by simp
  then have "\<lfloor>r * of_nat (Suc i)\<rfloor> < int (Suc i)"
    by (simp only: floor_less_iff)
  then show ?thesis by simp
qed

lemma shuffle_loop_mset:
  assumes "k < length pool \<or> k = 0"
  shows "mset (fst (shuffle_loop k pool g)) = mset pool"
  using assms
proof (induction k arbitrary: pool g)
  case 0
  show ?case by simp
next
  case (Suc k)
  then have i: "Suc k < length pool" by simp
  obtain r g' where rg: "rng g = (r, g')"
    by (cases "rng g")
  then have "0 \<le> r" "r < 1"
    using rng_range [of g] by simp_all
  then have j: "nat \<lfloor>r * of_nat (Suc (Suc k))\<rfloor> \<le> Suc k"
    by (rule draw_index_le)
  let ?j = "nat \<lfloor>r * of_nat (Suc (Suc k))\<rfloor>"
  let ?pool = "pool[Suc k := pool ! ?j, ?j := pool ! Suc k]"
  have "mset ?pool = mset pool"
    using i j by (intro mset_swap) simp_all
  moreover have "mset (fst (shuffle_loop k ?pool g')) = mset ?pool"
    using i by (intro Suc.IH) simp
  ultimately show ?case
    using rg by (simp add: Let_def)
qed

lemma shuffle_loop_spec:
  "shuffle_loop k pool g =
     (foldl (\<lambda>p (i, r). swap p i (nat \<lfloor>r * of_nat (i + 1)\<rfloor>)) pool
        (zip (rev [1..<Suc k]) (draws g k)),
      (advance ^^ k) g)"
proof (induction k arbitrary: pool g)
  case 0
  show ?case by simp
next
  case (Suc k)
  obtain r g' where rg: "rng g = (r, g')"
    by (cases "rng g")
  have adv: "advance g = g'"
    using rg by (simp add: advance_def)
  have "rev [1..<Suc (Suc k)] = Suc k # rev [1..<Suc k]"
    by simp
  with rg Suc [of "pool[Suc k := pool ! nat \<lfloor>r * of_nat (Suc (Suc k))\<rfloor>,
      nat \<lfloor>r * of_nat (Suc (Suc k))\<rfloor> := pool ! Suc k]" g']
  show ?case
    by (simp add: Let_def swap_def adv funpow_swap1 del: upt_Suc)
qed

lemma length_make_pool [simp]: "length (make_pool mn mx) = nat (mx - mn + 1)"
  by (simp add: make_pool_def)

lemma set_make_pool: "set (make_pool mn mx) = {mn..mx}"
proof -
  have "(\<lambda>i. int i + mn) ` {0..<nat (mx - mn + 1)} = {mn..mx}"
  proof (intro set_eqI iffI)
    fix x
    assume "x \<in> (\<lambda>i. int i + mn) ` {0..<nat (mx - mn + 1)}"
    then show "x \<in> {mn..mx}" by auto
  next
    fix x
    assume "x \<in> {mn..mx}"
    then have "x = int (nat (x - mn)) + mn" "nat (x - mn) \<in> {0..<nat (mx - mn + 1)}"
      by auto
    then show "x \<in> (\<lambda>i. int i + mn) ` {0..<nat (mx - mn + 1)}"
      by (rule image_eqI)
  qed
  then show ?thesis
    by (simp add: make_pool_def)
qed

lemma distinct_make_pool: "distinct (make_pool mn mx)"
  by (simp add: make_pool_def distinct_map inj_on_def)

lemma shuffled_pool_mset: "mset (fst (shuffled_pool seed mn mx)) = mset (make_pool mn mx)"
proof -
  have "length (make_pool mn mx) - 1 < length (make_pool mn mx) \<or> length (make_pool mn mx) - 1 = 0"
    by arith
  then show ?thesis
    by (simp add: shuffled_pool_def Let_def shuffle_loop_mset del: length_make_pool)
qed


lemma length_shuffled_pool [simp]:
  "length (fst (shuffled_pool seed mn mx)) = nat (mx - mn + 1)"
  using mset_eq_length [OF shuffled_pool_mset [of seed mn mx]] by simp

lemma length_generateUniqueNumbers:
  assumes "cnt \<le> mx - mn + 1"
  shows "map_sum id length (generateUniqueNumbers (Inr seed) cnt mn mx) =
    Inr (if cnt < 0 then nat (mx - mn + 1 + cnt) else nat cnt)"
  using assms by (auto simp: generateUniqueNumbers_def slice0_def)

text \<open>
  Claim C3, as the source has it. For every seed and every \<open>count\<close>, \<open>min\<close>, \<open>max\<close> with
  \<open>0 \<le> count \<le> max - min + 1\<close>, the generation returns a list of exactly \<open>count\<close>
  elements, without duplicates, every element an integer between \<open>min\<close> and \<open>max\<close>, in
  ascending order.
\<close>

theorem unique_numbers:
  assumes "0 \<le> cnt" and "cnt \<le> mx - mn + 1"
  shows "\<exists>xs. generateUniqueNumbers (Inr seed) cnt mn mx = Inr xs \<and>
           int (length xs) = cnt \<and> distinct xs \<and>
           (\<forall>x \<in> set xs. mn \<le> x \<and> x \<le> mx) \<and> sorted xs"
proof -
  let ?pool = "fst (shuffled_pool seed mn mx)"
  let ?xs = "sort (slice0 ?pool cnt)"
  have m: "mset ?pool = mset (make_pool mn mx)"
    by (rule shuffled_pool_mset)
  have d: "distinct ?pool"
    using mset_eq_imp_distinct_iff [OF m] distinct_make_pool by simp
  have s: "set ?pool = {mn..mx}"
    using mset_eq_setD [OF m] by (simp add: set_make_pool)
  have sl: "slice0 ?pool cnt = take (nat cnt) ?pool"
    using assms(1) by (simp add: slice0_def)
  have "generateUniqueNumbers (Inr seed) cnt mn mx = Inr ?xs"
    using assms(2) by (simp add: generateUniqueNumbers_def)
  moreover have "int (length ?xs) = cnt"
    using assms by (simp add: sl)
  moreover have "distinct ?xs"
    using d by (simp add: sl)
  moreover have "\<forall>x \<in> set ?xs. mn \<le> x \<and> x \<le> mx"
    using s set_take_subset [of "nat cnt" ?pool] by (auto simp: sl)
  moreover have "sorted ?xs"
    by simp
  ultimately show ?thesis by blast
qed

theorem unique_numbers_witness:
  "(0 :: int) \<le> 6 \<and> (6 :: int) \<le> 49 - 1 + 1 \<and>
   (\<exists>xs. generateUniqueNumbers (Inr zero_seed) 6 1 49 = Inr xs \<and>
      int (length xs) = 6 \<and> distinct xs \<and> (\<forall>x \<in> set xs. 1 \<le> x \<and> x \<le> 49) \<and> sorted xs)"
  using unique_numbers [of 6 49 1 zero_seed] by simp

text \<open>
  The claim as it is stated admits a negative \<open>count\<close>, which is below \<open>max - min + 1\<close>;
  \<^verbatim>\<open>pool.slice(0, -1)\<close> then drops the last element of the pool, and the result of
  \<open>count = -1\<close>, \<open>min = 1\<close>, \<open>max = 5\<close> has four elements.
\<close>

theorem unique_numbers_counterexample:
  "(- 1 :: int) \<le> 5 - 1 + 1 \<and>
   map_sum id length (generateUniqueNumbers (Inr zero_seed) (- 1) 1 5) = Inr 4"
  using length_generateUniqueNumbers [of "- 1" 5 1 zero_seed] by simp

text \<open>
  Claim C2, as the source has it. For every seed and every \<open>count\<close>, \<open>min\<close>, \<open>max\<close> with
  \<open>0 \<le> count \<le> max - min + 1\<close> and \<open>min \<le> max\<close>, the sampler builds the pool
  \<open>[min, ..., max]\<close>, shuffles it in full (for \<open>i\<close> from the last index down to 1 it draws
  \<open>j = \<lfloor>rng() * (i + 1)\<rfloor>\<close> and swaps the cells \<open>i\<close> and \<open>j\<close>), and returns the first
  \<open>count\<close> elements sorted in ascending order; the shuffle takes the first \<open>max - min\<close>
  draws of the generator and leaves it advanced by exactly \<open>max - min\<close> draws.
\<close>

theorem sampler_algorithm:
  assumes "0 \<le> cnt" and "cnt \<le> mx - mn + 1" and "mn \<le> mx"
  shows "generateUniqueNumbers (Inr seed) cnt mn mx = Inr (sample_spec seed cnt mn mx) \<and>
         snd (shuffled_pool seed mn mx) = (advance ^^ nat (mx - mn)) (createCSPRNG seed) \<and>
         int (nat (mx - mn)) = mx - mn"
proof -
  let ?k = "nat (mx - mn)"
  have len: "length (make_pool mn mx) = Suc ?k"
    using assms(3) by simp
  then have k: "length (make_pool mn mx) - 1 = ?k"
    by simp
  have "shuffled_pool seed mn mx =
      (fisher_yates (draws (createCSPRNG seed) ?k) (make_pool mn mx),
       (advance ^^ ?k) (createCSPRNG seed))"
    by (simp add: shuffled_pool_def Let_def shuffle_loop_spec fisher_yates_def len
        del: length_make_pool upt_Suc)
  then show ?thesis
    using assms by (simp add: generateUniqueNumbers_def sample_spec_def slice0_def)
qed

theorem sampler_algorithm_witness:
  "(0 :: int) \<le> 6 \<and> (6 :: int) \<le> 49 - 1 + 1 \<and> (1 :: int) \<le> 49 \<and>
   generateUniqueNumbers (Inr zero_seed) 6 1 49 = Inr (sample_spec zero_seed 6 1 49) \<and>
   snd (shuffled_pool zero_seed 1 49) = (advance ^^ 48) (createCSPRNG zero_seed)"
  using sampler_algorithm [of 6 49 1 zero_seed] by simp

text \<open>
  The claim as it is stated fails at the empty range \<open>min = 1\<close>, \<open>max = 0\<close> with
  \<open>count = 0\<close>: no draw is taken, and \<open>max - min\<close> is \<open>-1\<close>. It fails at a negative
  \<open>count\<close> too, where the source does not return the first \<open>count\<close> elements.
\<close>

theorem sampler_algorithm_counterexample:
  "(0 :: int) \<le> 0 - 1 + 1 \<and>
   generateUniqueNumbers (Inr zero_seed) 0 1 0 = Inr [] \<and>
   snd (shuffled_pool zero_seed 1 0) = (advance ^^ 0) (createCSPRNG zero_seed) \<and>
   int 0 \<noteq> 0 - 1 \<and>
   (- 1 :: int) \<le> 5 - 1 + 1 \<and>
   generateUniqueNumbers (Inr zero_seed) (- 1) 1 5 \<noteq> Inr (sample_spec zero_seed (- 1) 1 5)"
proof -
  have "generateUniqueNumbers (Inr zero_seed) 0 1 0 = Inr []"
    by (simp add: generateUniqueNumbers_def slice0_def)
  moreover have "snd (shuffled_pool zero_seed 1 0) = (advance ^^ 0) (createCSPRNG zero_seed)"
    by (simp add: shuffled_pool_def make_pool_def)
  moreover have "generateUniqueNumbers (Inr zero_seed) (- 1) 1 5 \<noteq>
      Inr (sample_spec zero_seed (- 1) 1 5)"
  proof
    assume "generateUniqueNumbers (Inr zero_seed) (- 1) 1 5 = Inr (sample_spec zero_seed (- 1) 1 5)"
    then have "map_sum id length (generateUniqueNumbers (Inr zero_seed) (- 1) 1 5) =
        Inr (length (sample_spec zero_seed (- 1) 1 5))"
      by simp
    then show False
      using length_generateUniqueNumbers [of "- 1" 5 1 zero_seed]
      by (simp add: sample_spec_def)
  qed
  ultimately show ?thesis by simp
qed

lemma deriveSeed_not_range:
  "deriveSeed hmac beacon purpose \<noteq> Inl (RangeTooSmall c a b)"
proof
  assume "deriveSeed hmac beacon purpose = Inl (RangeTooSmall c a b)"
  then have "hexToBytes beacon = Inl (RangeTooSmall c a b)"
    by (simp add: deriveSeed_def split: sum.splits option.splits)
  then show False
    using hexToBytes_error [of beacon "RangeTooSmall c a b"] by simp
qed

text \<open>
  Claim C8. Whenever \<open>count > max - min + 1\<close> the generation fails with the
  range-too-small error, whatever the seed promise is, even a rejected one: the guard
  returns before the seed is awaited, before the generator is created and before the pool
  is built, and the error carries no numbers. Whenever \<open>count \<le> max - min + 1\<close> that error
  is not raised: with a seed the generation succeeds, and a failed seed derivation gives an
  encoding error.
\<close>

theorem range_guard:
  "(cnt > mx - mn + 1 \<longrightarrow>
      generateUniqueNumbers seedPromise cnt mn mx = Inl (RangeTooSmall cnt mn mx)) \<and>
   (cnt \<le> mx - mn + 1 \<longrightarrow>
      generateUniqueNumbers (deriveSeed hmac beacon purpose) cnt mn mx \<noteq>
        Inl (RangeTooSmall c a b) \<and>
      (\<exists>xs. generateUniqueNumbers (Inr seed) cnt mn mx = Inr xs))"
  using deriveSeed_not_range [of hmac beacon purpose c a b]
  by (auto simp: generateUniqueNumbers_def split: sum.splits)

theorem range_guard_witness:
  "(10 :: int) > 5 - 1 + 1 \<and>
   generateUniqueNumbers (Inr zero_seed) 10 1 5 = Inl (RangeTooSmall 10 1 5) \<and>
   generateUniqueNumbers (Inl OddLength) 10 1 5 = Inl (RangeTooSmall 10 1 5) \<and>
   (6 :: int) \<le> 49 - 1 + 1 \<and>
   generateUniqueNumbers (deriveSeed concat_mac ''00ff'' ''649'') 6 1 49 \<noteq> Inl (RangeTooSmall 6 1 49) \<and>
   (\<exists>xs. generateUniqueNumbers (Inr zero_seed) 6 1 49 = Inr xs)"
  using range_guard [where cnt = 10 and mx = 5 and mn = 1 and seedPromise = "Inr zero_seed"]
    range_guard [where cnt = 10 and mx = 5 and mn = 1 and seedPromise = "Inl OddLength"]
    range_guard [where cnt = 6 and mx = 49 and mn = 1 and hmac = concat_mac and beacon = "''00ff''"
      and purpose = "''649''" and c = 6 and a = 1 and b = 49 and seed = zero_seed]
  by simp


lemma rng_fresh_agree:
  assumes "state g1 = state g2" and "length (state g1) = 16"
    and "16 \<le> bufferIndex g1" and "16 \<le> bufferIndex g2"
    and "length (buffer g1) = 16" and "length (buffer g2) = 16"
  shows "rng g1 = rng g2"
proof -
  have "chachaBlock (state g1) (buffer g1) = chachaBlock (state g2) (buffer g2)"
    using assms by (simp add: chachaBlock_block_spec)
  then have "refill g1 = refill g2"
    using assms(1) by (simp add: refill_def)
  with assms(3,4) show ?thesis
    by (simp add: rng_def)
qed

lemma draws_fresh_agree:
  assumes "state g1 = state g2" and "length (state g1) = 16"
    and "16 \<le> bufferIndex g1" and "16 \<le> bufferIndex g2"
    and "length (buffer g1) = 16" and "length (buffer g2) = 16"
  shows "draws g1 n = draws g2 n"
proof (cases n)
  case 0
  then show ?thesis by simp
next
  case (Suc m)
  with rng_fresh_agree [OF assms] show ?thesis by simp
qed

text \<open>
  Claim C6. Generation is deterministic. Two generators with the same state and an empty
  buffer yield the same draws, whatever their buffers still hold; in particular two
  generators made from the same seed yield the same draws, and two generations from the
  same seed, or from the same entropy string and purpose, return the same result.
\<close>

theorem generation_deterministic:
  "(state g1 = state g2 \<and> length (state g1) = 16 \<and>
    16 \<le> bufferIndex g1 \<and> 16 \<le> bufferIndex g2 \<and>
    length (buffer g1) = 16 \<and> length (buffer g2) = 16 \<longrightarrow> draws g1 n = draws g2 n) \<and>
   (seed1 = seed2 \<longrightarrow>
      draws (createCSPRNG seed1) n = draws (createCSPRNG seed2) n \<and>
      generateUniqueNumbers (Inr seed1) cnt mn mx = generateUniqueNumbers (Inr seed2) cnt mn mx) \<and>
   (beacon1 = beacon2 \<and> purpose1 = purpose2 \<longrightarrow>
      deriveSeed hmac beacon1 purpose1 = deriveSeed hmac beacon2 purpose2 \<and>
      generateUniqueNumbers (deriveSeed hmac beacon1 purpose1) cnt mn mx =
      generateUniqueNumbers (deriveSeed hmac beacon2 purpose2) cnt mn mx)"
proof (intro conjI impI)
  assume "state g1 = state g2 \<and> length (state g1) = 16 \<and>
    16 \<le> bufferIndex g1 \<and> 16 \<le> bufferIndex g2 \<and>
    length (buffer g1) = 16 \<and> length (buffer g2) = 16"
  then show "draws g1 n = draws g2 n"
    using draws_fresh_agree [of g1 g2 n] by blast
qed simp_all

theorem generation_deterministic_witness:
  "draws \<lparr>state = state (createCSPRNG zero_seed), bufferIndex = 16, buffer = replicate 16 0\<rparr> 5 =
   draws \<lparr>state = state (createCSPRNG zero_seed), bufferIndex = 17, buffer = replicate 16 1\<rparr> 5 \<and>
   generateUniqueNumbers (deriveSeed concat_mac ''00ff'' ''649'') 6 1 49 =
   generateUniqueNumbers (deriveSeed concat_mac ''00ff'' (''64'' @ ''9'')) 6 1 49"
  using
    generation_deterministic [where
      ?g1.0 = "\<lparr>state = state (createCSPRNG zero_seed), bufferIndex = 16, buffer = replicate 16 0\<rparr>"
      and ?g2.0 = "\<lparr>state = state (createCSPRNG zero_seed), bufferIndex = 17, buffer = replicate 16 1\<rparr>"
      and n = 5 and hmac = concat_mac and ?beacon1.0 = "''00ff''" and ?beacon2.0 = "''00ff''"
      and ?purpose1.0 = "''649''" and ?purpose2.0 = "''64'' @ ''9''" and cnt = 6 and mn = 1 and mx = 49]
  by simp

end
